theory Spec2Isabelle
  imports Main "HOL-Library.Word" "HOL-Library.Code_Target_Numeral"
begin

unbundle bit_operations_syntax

section \<open>The credential registry of rtmp-auth\<close>

text \<open>
  A shallow embedding of the store of rtmp-auth (\<^verbatim>\<open>Store\<close> and its methods), of the two
  control-plane revocation functions (\<^verbatim>\<open>ReqDropStreamPublisher\<close>, \<^verbatim>\<open>DropStreamPublisher\<close>)
  and of the expiry sweep (\<^verbatim>\<open>Expire\<close>), and of \<^verbatim>\<open>ParseExpiry\<close>. Go strings are byte strings, here \<open>string\<close>;
  \<^verbatim>\<open>int64\<close> is \<open>64 word\<close>, compared as a signed number; \<^verbatim>\<open>[]byte\<close> is a list of
  \<open>8 word\<close>.
\<close>

subsection \<open>Data model\<close>

type_synonym byte = "8 word"

type_synonym int64 = "64 word"

text \<open>
  Modelled from the spec: the declaration of \<^verbatim>\<open>storage.Stream\<close> is not
  among the sources. The fields are the ones the sources read and write, with the types the
  specification gives for the persisted file, which are also the types the sources use them
  at. The field \<^verbatim>\<open>Id\<close> is written \<open>Id'\<close>, since
  \<open>Id\<close> is the identity relation of HOL.
\<close>

record Stream =
  Id' :: string
  Application :: string
  Name :: string
  AuthKey :: string
  AuthExpire :: int64
  Notes :: string
  Blocked :: bool
  Active :: bool

text \<open>
  Modelled from the spec: the declaration of \<^verbatim>\<open>storage.State\<close>, the
  persisted part of the store, is not among the sources either; its three fields are the ones
  the sources use.
\<close>

record State =
  Secret :: "byte list"
  CtrlUrl :: string
  Streams :: "Stream list"

subsection \<open>Errors\<close>

text \<open>\<^verbatim>\<open>authError\<close>, with its message and its reason.\<close>

datatype authError = AuthError (Msg: string) (Reason: string)

text \<open>
  The errors the store builds with \<^verbatim>\<open>fmt.Errorf\<close>, one constructor for each place:
  the three of \<^verbatim>\<open>save\<close>, the two of \<^verbatim>\<open>read\<close>, and those of \<^verbatim>\<open>GetStreamById\<close>,
  \<^verbatim>\<open>SetActive\<close> and \<^verbatim>\<open>SetInactive\<close>, with the values their messages print.
\<close>

datatype error =
    Save_EncodeFailed
  | Save_WriteFailed
  | Save_MoveFailed
  | Read_NoPreviousFile
  | Read_ParseFailed
  | GetStreamById_NotFound string
  | SetActive_NotFound string
  | SetActive_SaveFailed string string string
  | SetInactive_NotFound string string
  | SetInactive_SaveFailed string string

text \<open>
  \<^verbatim>\<open>nginxControlError\<close>. Its message is one of six texts, told apart here by a
  constructor that carries the values the text prints. The field \<^verbatim>\<open>Msg\<close> is written
  \<open>CMsg\<close>, since \<open>Msg\<close> is the field of \<^verbatim>\<open>authError\<close> already.
\<close>

datatype ctrl_msg =
    CtrlUrlNotSet
  | StreamIdNotFound string
  | StreamNotActive string
  | OtherStreamGranted string string
  | RequestFailed
  | RequestDenied

record nginxControlError =
  CMsg :: ctrl_msg
  RequestSent :: bool
  GotValidResponse :: bool
  Returncode :: int
  Err :: "string option"

subsection \<open>The store and its environment\<close>

text \<open>
  The store, together with the part of the outside world its methods act on:
  \<open>Disk\<close> is the content of the file at \<^verbatim>\<open>store.Path\<close> (\<open>None\<close> when the file does not
  exist), \<open>Saves\<close> counts the calls of \<^verbatim>\<open>save\<close> made so far, \<open>Requests\<close> lists the URLs
  of the outbound \<^verbatim>\<open>http.Get\<close> calls made so far (latest last) and \<open>Log\<close> the lines
  written with \<^verbatim>\<open>log.Printf\<close> by the modelled functions (latest last).
  The slice \<^verbatim>\<open>State.Streams\<close> holds pointers; every pointer in it is to a record of its own
  (\<^verbatim>\<open>AddHandler\<close> and \<^verbatim>\<open>proto.Unmarshal\<close> allocate a fresh one for each entry), so an
  update through one pointer is an update of one position of the list.
\<close>

datatype log_line =
    LogExpiring string string
  | LogStreamNotFound string
  | LogNotDropping string string
  | LogSendFailed string
  | LogDropped string string string
  | LogError error
  | LogStateRestored

record Store =
  State :: State
  Disk :: "byte list option"
  Saves :: nat
  Requests :: "string list"
  Log :: "log_line list"

text \<open>
  What an outbound \<^verbatim>\<open>http.Get\<close> returns: the response (its status code) and the error;
  Go returns both, and either can be nil.
\<close>

datatype http_result = HttpResult (resp: "int option") (err: "string option")

text \<open>
  The environment: \<^verbatim>\<open>proto.Marshal\<close> and \<^verbatim>\<open>proto.Unmarshal\<close> on \<^verbatim>\<open>storage.State\<close>
  (\<open>None\<close> is their error), whether the \<open>n\<close>-th call of \<^verbatim>\<open>save\<close> can write its temporary
  file and rename it, whether \<^verbatim>\<open>ioutil.ReadFile\<close> can read an existing file, and the
  answer of the relay to the \<open>n\<close>-th outbound request.
\<close>

record Env =
  Marshal :: "State \<Rightarrow> byte list option"
  Unmarshal :: "byte list \<Rightarrow> State option"
  WriteFile_ok :: "nat \<Rightarrow> bool"
  Rename_ok :: "nat \<Rightarrow> bool"
  ReadFile_ok :: bool
  HttpGet :: "nat \<Rightarrow> string \<Rightarrow> http_result"

subsection \<open>Persistence\<close>

text \<open>
  \<^verbatim>\<open>save\<close>: marshal the state, write it to a temporary file, rename that file onto the
  path. The file at the path changes only when all three steps succeed.
\<close>

definition save :: "Env \<Rightarrow> Store \<Rightarrow> error option \<times> Store" where
  "save env store =
     (let n = Saves store; store1 = store\<lparr>Saves := Suc n\<rparr> in
      case Marshal env (State store) of
        None \<Rightarrow> (Some Save_EncodeFailed, store1)
      | Some out \<Rightarrow>
          if \<not> WriteFile_ok env n then (Some Save_WriteFailed, store1)
          else if \<not> Rename_ok env n then (Some Save_MoveFailed, store1)
          else (None, store1\<lparr>Disk := Some out\<rparr>))"

text \<open>
  \<^verbatim>\<open>read\<close>: a file that does not exist is not an error and leaves the state as it is;
  \<^verbatim>\<open>proto.Unmarshal\<close> resets the state before it fills it. On an error \<^verbatim>\<open>NewStore\<close>
  gives the store up, so the model returns no store then.
\<close>

definition read :: "Env \<Rightarrow> Store \<Rightarrow> error + Store" where
  "read env store =
     (case Disk store of
        None \<Rightarrow> Inr store
      | Some data \<Rightarrow>
          if \<not> ReadFile_ok env then Inl Read_NoPreviousFile
          else (case Unmarshal env data of
                  None \<Rightarrow> Inl Read_ParseFailed
                | Some s \<Rightarrow> Inr (store\<lparr>State := s, Log := Log store @ [LogStateRestored]\<rparr>)))"

subsection \<open>The authorization decision\<close>

text \<open>\<^verbatim>\<open>IsActiveByAppName\<close>: the loop runs over all streams and keeps a flag.\<close>

fun IsActiveByAppName_loop :: "Stream list \<Rightarrow> string \<Rightarrow> string \<Rightarrow> bool \<Rightarrow> bool" where
  "IsActiveByAppName_loop [] app name active = active"
| "IsActiveByAppName_loop (stream # rest) app name active =
     (if Application stream = app \<and> Name stream = name \<and> Active stream = True
      then IsActiveByAppName_loop rest app name True
      else IsActiveByAppName_loop rest app name active)"

definition IsActiveByAppName :: "Store \<Rightarrow> string \<Rightarrow> string \<Rightarrow> bool" where
  "IsActiveByAppName store app name =
     IsActiveByAppName_loop (Streams (State store)) app name False"

text \<open>
  \<^verbatim>\<open>Auth\<close>: the loop returns at the first stream whose application, name and key match.
  The result is the identifier and the error (\<open>None\<close> is Go's nil: access granted).
\<close>

fun Auth_loop :: "Store \<Rightarrow> Stream list \<Rightarrow> string \<Rightarrow> string \<Rightarrow> string \<Rightarrow> string \<times> authError option" where
  "Auth_loop store [] app name auth =
     ('''', Some (AuthError ''Publish denied. Access unauthorized'' ''unauthorized''))"
| "Auth_loop store (stream # rest) app name auth =
     (if Application stream = app \<and> Name stream = name \<and> AuthKey stream = auth then
        (if Blocked stream = False then
           (let conflict = (if Active stream = True then False
                            else IsActiveByAppName store app name)
            in if conflict = False then (Id' stream, None)
               else (Id' stream, Some (AuthError ''Publish denied. Resource busy.'' ''busy'')))
         else (Id' stream, Some (AuthError ''Publish denied. Stream blocked.'' ''blocked'')))
      else Auth_loop store rest app name auth)"

definition Auth :: "Store \<Rightarrow> string \<Rightarrow> string \<Rightarrow> string \<Rightarrow> string \<times> authError option" where
  "Auth store app name auth = Auth_loop store (Streams (State store)) app name auth"

subsection \<open>Lookups and mutations\<close>

text \<open>\<^verbatim>\<open>GetStreamById\<close>: the first stream with the identifier.\<close>

fun GetStreamById_loop :: "Stream list \<Rightarrow> string \<Rightarrow> error + Stream" where
  "GetStreamById_loop [] id' = Inl (GetStreamById_NotFound id')"
| "GetStreamById_loop (stream # rest) id' =
     (if Id' stream = id' then Inr stream else GetStreamById_loop rest id')"

definition GetStreamById :: "Store \<Rightarrow> string \<Rightarrow> error + Stream" where
  "GetStreamById store id' = GetStreamById_loop (Streams (State store)) id'"

text \<open>Writing a new list of streams into the store.\<close>

definition with_Streams :: "Store \<Rightarrow> Stream list \<Rightarrow> Store" where
  "with_Streams store ss = store\<lparr>State := (State store)\<lparr>Streams := ss\<rparr>\<rparr>"

text \<open>
  \<^verbatim>\<open>SetActive\<close>: at the first stream with the identifier the flag is set, the store is
  saved and the function returns. \<open>seen\<close> holds the streams the loop has passed.
\<close>

fun SetActive_loop :: "Env \<Rightarrow> Store \<Rightarrow> Stream list \<Rightarrow> Stream list \<Rightarrow> string \<Rightarrow> error option \<times> Store" where
  "SetActive_loop env store seen [] id' = (Some (SetActive_NotFound id'), store)"
| "SetActive_loop env store seen (stream # rest) id' =
     (if Id' stream = id' then
        (let store1 = with_Streams store (seen @ stream\<lparr>Active := True\<rparr> # rest) in
         case save env store1 of
           (Some e, store2) \<Rightarrow>
              (Some (SetActive_SaveFailed id' (Application stream) (Name stream)), store2)
         | (None, store2) \<Rightarrow> (None, store2))
      else SetActive_loop env store (seen @ [stream]) rest id')"

definition SetActive :: "Env \<Rightarrow> string \<Rightarrow> Store \<Rightarrow> error option \<times> Store" where
  "SetActive env id' store = SetActive_loop env store [] (Streams (State store)) id'"

text \<open>
  \<^verbatim>\<open>SetInactive\<close>: the loop clears the flag of every active stream of the application
  and name and records whether it changed anything; only then the store is saved.
\<close>

fun SetInactive_loop :: "Stream list \<Rightarrow> Stream list \<Rightarrow> string \<Rightarrow> string \<Rightarrow> bool \<Rightarrow> Stream list \<times> bool" where
  "SetInactive_loop seen [] app name stateChange = (seen, stateChange)"
| "SetInactive_loop seen (stream # rest) app name stateChange =
     (if Application stream = app \<and> Name stream = name \<and> Active stream = True
      then SetInactive_loop (seen @ [stream\<lparr>Active := False\<rparr>]) rest app name True
      else SetInactive_loop (seen @ [stream]) rest app name stateChange)"

definition SetInactive :: "Env \<Rightarrow> string \<Rightarrow> string \<Rightarrow> Store \<Rightarrow> error option \<times> Store" where
  "SetInactive env app name store =
     (case SetInactive_loop [] (Streams (State store)) app name False of
        (ss, stateChange) \<Rightarrow>
          if stateChange = False then (Some (SetInactive_NotFound app name), with_Streams store ss)
          else (case save env (with_Streams store ss) of
                  (Some e, store2) \<Rightarrow> (Some (SetInactive_SaveFailed app name), store2)
                | (None, store2) \<Rightarrow> (None, store2)))"

text \<open>
  \<^verbatim>\<open>SetBlocked\<close>: as \<^verbatim>\<open>SetActive\<close>, but the error of \<^verbatim>\<open>save\<close> is returned as it is, and
  the function returns nil when the loop ends without a match.
\<close>

fun SetBlocked_loop :: "Env \<Rightarrow> Store \<Rightarrow> Stream list \<Rightarrow> Stream list \<Rightarrow> string \<Rightarrow> bool \<Rightarrow> error option \<times> Store" where
  "SetBlocked_loop env store seen [] id' state = (None, store)"
| "SetBlocked_loop env store seen (stream # rest) id' state =
     (if Id' stream = id' then
        (let store1 = with_Streams store (seen @ stream\<lparr>Blocked := state\<rparr> # rest) in
         case save env store1 of
           (Some e, store2) \<Rightarrow> (Some e, store2)
         | (None, store2) \<Rightarrow> (None, store2))
      else SetBlocked_loop env store (seen @ [stream]) rest id' state)"

definition SetBlocked :: "Env \<Rightarrow> string \<Rightarrow> bool \<Rightarrow> Store \<Rightarrow> error option \<times> Store" where
  "SetBlocked env id' state store = SetBlocked_loop env store [] (Streams (State store)) id' state"

text \<open>
  \<^verbatim>\<open>RemoveStream\<close>: the loop looks for the first stream with the identifier and breaks
  there; \<open>pos\<close> is the position of the stream at hand, \<open>index\<close> the loop variable, which
  keeps its last value when the loop ends. When the stream was found, the streams behind it
  move one place down and the slice is cut by one. The store is saved in either case, and
  the only error returned is the one of \<^verbatim>\<open>save\<close>.
\<close>

fun RemoveStream_loop :: "Stream list \<Rightarrow> string \<Rightarrow> nat \<Rightarrow> nat \<Rightarrow> bool \<times> nat" where
  "RemoveStream_loop [] id' pos index = (False, index)"
| "RemoveStream_loop (stream # rest) id' pos index =
     (if Id' stream = id' then (True, pos) else RemoveStream_loop rest id' (Suc pos) pos)"

definition RemoveStream :: "Env \<Rightarrow> string \<Rightarrow> Store \<Rightarrow> error option \<times> Store" where
  "RemoveStream env id' store =
     (let s = Streams (State store) in
      case RemoveStream_loop s id' 0 0 of
        (found, index) \<Rightarrow>
          (let store1 = (if found then with_Streams store (take index s @ drop (Suc index) s)
                         else store)
           in case save env store1 of
                (Some e, store2) \<Rightarrow> (Some e, store2)
              | (None, store2) \<Rightarrow> (None, store2)))"

subsection \<open>Control-plane revocation\<close>

text \<open>
  The loop of both revocation functions that looks for another stream published on the
  application and name: an active stream of that application and name whose identifier is
  not the given one.
\<close>

fun another_published :: "Stream list \<Rightarrow> string \<Rightarrow> string \<Rightarrow> string \<Rightarrow> bool" where
  "another_published [] app name id' = False"
| "another_published (stream # rest) app name id' =
     (if Application stream = app \<and> Name stream = name \<and> Active stream = True \<and> Id' stream \<noteq> id'
      then True
      else another_published rest app name id')"

text \<open>The URL of the drop request.\<close>

definition drop_url :: "string \<Rightarrow> string \<Rightarrow> string \<Rightarrow> string" where
  "drop_url ctrlurl app name =
     ctrlurl @ ''/control/drop/publisher?app='' @ app @ ''&name='' @ name"

definition not_sent :: "ctrl_msg \<Rightarrow> nginxControlError" where
  "not_sent m =
     \<lparr>CMsg = m, RequestSent = False, GotValidResponse = False, Returncode = - 1, Err = None\<rparr>"

text \<open>
  \<^verbatim>\<open>ReqDropStreamPublisher\<close> returns an error value (\<open>None\<close> is nil). The status
  \<^verbatim>\<open>http.StatusOK\<close> is 200.
\<close>

definition ReqDropStreamPublisher :: "Env \<Rightarrow> Store \<Rightarrow> string \<Rightarrow> nginxControlError option \<times> Store" where
  "ReqDropStreamPublisher env store id' =
     (let ctrlurl = CtrlUrl (State store) in
      if length ctrlurl = 0 then (Some (not_sent CtrlUrlNotSet), store)
      else
        case GetStreamById store id' of
          Inl e \<Rightarrow> (Some (not_sent (StreamIdNotFound id')), store)
        | Inr stream \<Rightarrow>
            (let app = Application stream; name = Name stream in
             if Active stream = False then (Some (not_sent (StreamNotActive id')), store)
             else if another_published (Streams (State store)) app name id'
             then (Some (not_sent (OtherStreamGranted app name)), store)
             else
               (let url = drop_url ctrlurl app name;
                    r = HttpGet env (length (Requests store)) url;
                    store1 = store\<lparr>Requests := Requests store @ [url]\<rparr>
                in case err r of
                     Some e \<Rightarrow>
                       (Some \<lparr>CMsg = RequestFailed, RequestSent = True, GotValidResponse = False,
                              Returncode = 0, Err = Some e\<rparr>, store1)
                   | None \<Rightarrow>
                       (case resp r of
                          Some code \<Rightarrow>
                            if code = 200 then
                              (case SetInactive env app name store1 of
                                 (Some e, store2) \<Rightarrow> (None, store2\<lparr>Log := Log store2 @ [LogError e]\<rparr>)
                               | (None, store2) \<Rightarrow> (None, store2))
                            else
                              (Some \<lparr>CMsg = RequestDenied, RequestSent = True,
                                     GotValidResponse = True, Returncode = code, Err = None\<rparr>, store1)
                        | None \<Rightarrow>
                            (Some \<lparr>CMsg = RequestFailed, RequestSent = True,
                                   GotValidResponse = False, Returncode = - 1, Err = None\<rparr>, store1)))))"

text \<open>
  \<^verbatim>\<open>DropStreamPublisher\<close> returns nothing: what it reports, it writes to the log. After a
  failed request it still looks at the response.
\<close>

definition DropStreamPublisher :: "Env \<Rightarrow> Store \<Rightarrow> string \<Rightarrow> Store" where
  "DropStreamPublisher env store id' =
     (let ctrlurl = CtrlUrl (State store) in
      if length ctrlurl = 0 then store
      else
        case GetStreamById store id' of
          Inl e \<Rightarrow> store\<lparr>Log := Log store @ [LogStreamNotFound id']\<rparr>
        | Inr stream \<Rightarrow>
            (let app = Application stream; name = Name stream in
             if Active stream = False then store
             else if another_published (Streams (State store)) app name id'
             then store\<lparr>Log := Log store @ [LogNotDropping app name]\<rparr>
             else
               (let url = drop_url ctrlurl app name;
                    r = HttpGet env (length (Requests store)) url;
                    store1 = store\<lparr>Requests := Requests store @ [url]\<rparr>;
                    store2 = (case err r of
                                Some e \<Rightarrow> store1\<lparr>Log := Log store1 @ [LogSendFailed e]\<rparr>
                              | None \<Rightarrow> store1)
                in case resp r of
                     Some code \<Rightarrow>
                       if code = 200 then
                         (let store3 = snd (SetInactive env app name store2)
                          in store3\<lparr>Log := Log store3 @ [LogDropped id' app name]\<rparr>)
                       else store2
                   | None \<Rightarrow> store2)))"

subsection \<open>The expiry sweep\<close>

text \<open>
  \<^verbatim>\<open>Expire\<close>, with the time \<^verbatim>\<open>time.Now().Unix()\<close> as the argument \<open>now\<close>. The first loop
  collects the identifiers of the streams to delete, the second drops the publisher of
  each and removes it.
\<close>

fun Expire_scan :: "Stream list \<Rightarrow> int64 \<Rightarrow> string list \<Rightarrow> log_line list \<Rightarrow> string list \<times> log_line list" where
  "Expire_scan [] now toDelete lg = (toDelete, lg)"
| "Expire_scan (stream # rest) now toDelete lg =
     (if AuthExpire stream \<noteq> - 1 \<and> AuthExpire stream <s now
      then Expire_scan rest now (toDelete @ [Id' stream])
             (lg @ [LogExpiring (Application stream) (Name stream)])
      else Expire_scan rest now toDelete lg)"

fun Expire_delete :: "Env \<Rightarrow> string list \<Rightarrow> Store \<Rightarrow> Store" where
  "Expire_delete env [] store = store"
| "Expire_delete env (id' # rest) store =
     Expire_delete env rest (snd (RemoveStream env id' (DropStreamPublisher env store id')))"

definition Expire :: "Env \<Rightarrow> int64 \<Rightarrow> Store \<Rightarrow> Store" where
  "Expire env now store =
     (case Expire_scan (Streams (State store)) now [] (Log store) of
        (toDelete, lg) \<Rightarrow> Expire_delete env toDelete (store\<lparr>Log := lg\<rparr>))"

subsection \<open>Expiry specifications\<close>

text \<open>
  What \<^verbatim>\<open>FindStringSubmatch\<close> returns for \<^verbatim>\<open>durationRegex\<close>, a pattern with six groups:
  the text of the whole match and of each group, the empty string for a group that took no
  part in the match. \<^verbatim>\<open>ParseExpiry\<close> reads the six groups.
\<close>

datatype submatch =
  Submatch (whole: string) (group1: string) (group2: string) (group3: string)
    (group4: string) (group5: string) (group6: string)







text \<open>
  What Go's regular expressions give for the pattern of \<^verbatim>\<open>durationRegex\<close>: the letter P,
  then six groups that may be missing, each a run of digits and dots (one at least)
  followed by the letter of its unit: Y, M and D, then a T that may be missing, then H, M
  and S. The pattern is not anchored, and the engine returns the leftmost match and, of the
  matches that start there, the one a backtracking search finds first. Everything behind
  the P may be missing, so the match starts at the first P of the string; a group is taken
  when the longest run of digits and dots at its place is not empty and the letter of the
  group follows it, and is empty otherwise.
\<close>

definition digit_or_dot :: "char \<Rightarrow> bool" where
  "digit_or_dot c = (c \<in> set ''0123456789.'')"

definition take_group :: "char \<Rightarrow> string \<Rightarrow> string \<times> string" where
  "take_group unit s =
     (let run = takeWhile digit_or_dot s in
      case dropWhile digit_or_dot s of
        [] \<Rightarrow> ('''', s)
      | c # rest \<Rightarrow> if run \<noteq> [] \<and> c = unit then (run @ [unit], rest) else ('''', s))"

definition take_T :: "string \<Rightarrow> string \<times> string" where
  "take_T s = (case s of [] \<Rightarrow> ('''', s) | c # rest \<Rightarrow> if c = CHR ''T'' then (''T'', rest) else ('''', s))"

definition durationRegex_match :: "string \<Rightarrow> submatch" where
  "durationRegex_match s0 =
     (case take_group (CHR ''Y'') s0 of (g1, s1) \<Rightarrow>
      case take_group (CHR ''M'') s1 of (g2, s2) \<Rightarrow>
      case take_group (CHR ''D'') s2 of (g3, s3) \<Rightarrow>
      case take_T s3 of (t, s4) \<Rightarrow>
      case take_group (CHR ''H'') s4 of (g4, s5) \<Rightarrow>
      case take_group (CHR ''M'') s5 of (g5, s6) \<Rightarrow>
      case take_group (CHR ''S'') s6 of (g6, s7) \<Rightarrow>
        Submatch (''P'' @ g1 @ g2 @ g3 @ t @ g4 @ g5 @ g6) g1 g2 g3 g4 g5 g6)"

definition durationRegex_FindStringSubmatch :: "string \<Rightarrow> submatch option" where
  "durationRegex_FindStringSubmatch str =
     (case dropWhile (\<lambda>c. c \<noteq> CHR ''P'') str of
        [] \<Rightarrow> None
      | p # s0 \<Rightarrow> Some (durationRegex_match s0))"

subsection \<open>The persisted file\<close>

text \<open>
  \<^verbatim>\<open>save\<close> and \<^verbatim>\<open>read\<close> hand the state to \<^verbatim>\<open>proto.Marshal\<close> and \<^verbatim>\<open>proto.Unmarshal\<close> of the
  protocol buffers library; the message types of the package \<^verbatim>\<open>storage\<close> and their generated
  code are not among the sources. The definitions of this subsection stand for them. They
  follow the wire format of protocol buffers (version 3 of the language, where a field that
  holds the zero value of its type is not written) and take the fields, their types and
  their order from the description of the persisted file in the specification.
\<close>

text \<open>
  Modelled from the spec: the variable-length integer of the wire format, which the serializer
  of the package storage (not among the sources) writes: seven bits to a byte, the lowest
  first, the top bit set on every byte but the last.
\<close>

function put_varint :: "nat \<Rightarrow> byte list" where
  "put_varint n =
     (if n < 128 then [of_nat n] else of_nat (n mod 128 + 128) # put_varint (n div 128))"
  by pat_completeness auto
termination
  by (relation "measure id") auto

declare put_varint.simps [simp del]

text \<open>
  Modelled from the spec: reading a variable-length integer back, as the parser of the package
  storage (not among the sources) does; the result is the number and the bytes behind it,
  \<open>None\<close> when the bytes end before the number does. Lengths in Go are machine
  integers; the naturals of the model need no bound.
\<close>

fun get_varint :: "byte list \<Rightarrow> (nat \<times> byte list) option" where
  "get_varint [] = None"
| "get_varint (b # bs) =
     (if unat b < 128 then Some (unat b, bs)
      else case get_varint bs of
             None \<Rightarrow> None
           | Some (n, rest) \<Rightarrow> Some (unat b - 128 + 128 * n, rest))"

text \<open>
  Modelled from the spec: the four kinds of value on the wire (the generated code of the
  package storage, not among the sources, writes the first and the third): a variable-length
  integer, eight bytes, a byte string with its length, four bytes.
\<close>

datatype wire = Varint nat | Fixed64 "byte list" | LengthDelimited "byte list" | Fixed32 "byte list"

text \<open>
  Modelled from the spec: a field on the wire, as the serializer of the package storage (not
  among the sources) writes it: the tag, which is eight times the field number plus the kind
  of value, then the value.
\<close>

fun put_field :: "nat \<times> wire \<Rightarrow> byte list" where
  "put_field (num, Varint n) = put_varint (num * 8) @ put_varint n"
| "put_field (num, Fixed64 bs) = put_varint (num * 8 + 1) @ bs"
| "put_field (num, LengthDelimited bs) = put_varint (num * 8 + 2) @ put_varint (length bs) @ bs"
| "put_field (num, Fixed32 bs) = put_varint (num * 8 + 5) @ bs"

text \<open>
  Modelled from the spec: reading one field, as the parser of the package storage (not among
  the sources) does; the field number 0 and the kinds of value other than 0, 1, 2 and 5 are
  errors, and so is a value longer than the bytes left.
\<close>

definition get_field :: "byte list \<Rightarrow> ((nat \<times> wire) \<times> byte list) option" where
  "get_field bs =
     (case get_varint bs of
        None \<Rightarrow> None
      | Some (tag, rest) \<Rightarrow>
          (let num = tag div 8; wt = tag mod 8 in
           if num = 0 then None
           else if wt = 0 then
             (case get_varint rest of
                None \<Rightarrow> None
              | Some (n, rest2) \<Rightarrow> Some ((num, Varint n), rest2))
           else if wt = 1 then
             (if length rest < 8 then None
              else Some ((num, Fixed64 (take 8 rest)), drop 8 rest))
           else if wt = 2 then
             (case get_varint rest of
                None \<Rightarrow> None
              | Some (len, rest2) \<Rightarrow>
                  if length rest2 < len then None
                  else Some ((num, LengthDelimited (take len rest2)), drop len rest2))
           else if wt = 5 then
             (if length rest < 4 then None
              else Some ((num, Fixed32 (take 4 rest)), drop 4 rest))
           else None))"

text \<open>
  Modelled from the spec: reading all fields of a message, as the parser of the package
  storage (not among the sources) does, to the end of the bytes. Every field takes at least
  its tag from the bytes, so the test on the lengths never fails; it is what makes the
  recursion end.
\<close>

fun get_fields :: "byte list \<Rightarrow> (nat \<times> wire) list option" where
  "get_fields bs =
     (if bs = [] then Some []
      else case get_field bs of
             None \<Rightarrow> None
           | Some (f, rest) \<Rightarrow>
               if length rest < length bs then
                 (case get_fields rest of None \<Rightarrow> None | Some fs \<Rightarrow> Some (f # fs))
               else None)"

declare get_fields.simps [simp del]

text \<open>
  Modelled from the spec: the bytes of a Go string, for the serializer of the package storage
  (not among the sources).
\<close>

definition to_bytes :: "string \<Rightarrow> byte list" where
  "to_bytes s = map (\<lambda>c. of_nat (of_char c)) s"

text \<open>
  Modelled from the spec: the Go string of a byte sequence, for the parser of the package
  storage (not among the sources).
\<close>

definition to_string :: "byte list \<Rightarrow> string" where
  "to_string bs = map (\<lambda>b. char_of (unat b)) bs"

text \<open>
  Modelled from the spec: a string field of a message of the package storage (not among the
  sources); the empty string is not written.
\<close>

definition string_field :: "nat \<Rightarrow> string \<Rightarrow> (nat \<times> wire) list" where
  "string_field num v = (if v = [] then [] else [(num, LengthDelimited (to_bytes v))])"

text \<open>
  Modelled from the spec: a bytes field of a message of the package storage (not among the
  sources); no bytes, no field.
\<close>

definition bytes_field :: "nat \<Rightarrow> byte list \<Rightarrow> (nat \<times> wire) list" where
  "bytes_field num v = (if v = [] then [] else [(num, LengthDelimited v)])"

text \<open>
  Modelled from the spec: a signed 64-bit field of a message of the package storage (not among
  the sources), written as the variable-length integer of its 64 bits, so that
  \<open>-1\<close> takes ten bytes; zero is not written.
\<close>

definition int64_field :: "nat \<Rightarrow> int64 \<Rightarrow> (nat \<times> wire) list" where
  "int64_field num v = (if v = 0 then [] else [(num, Varint (unat v))])"

text \<open>
  Modelled from the spec: a boolean field of a message of the package storage (not among the
  sources); false is not written.
\<close>

definition bool_field :: "nat \<Rightarrow> bool \<Rightarrow> (nat \<times> wire) list" where
  "bool_field num v = (if v then [(num, Varint 1)] else [])"

text \<open>
  Modelled from the spec: the fields of a credential record in the persisted file, which the
  message type of the package storage (not among the sources) declares: identifier,
  application, name, authorization key, expiry, notes, blocked, active, numbered in this
  order.
\<close>

definition Stream_fields :: "Stream \<Rightarrow> (nat \<times> wire) list" where
  "Stream_fields s =
     string_field 1 (Id' s) @ string_field 2 (Application s) @ string_field 3 (Name s) @
     string_field 4 (AuthKey s) @ int64_field 5 (AuthExpire s) @ string_field 6 (Notes s) @
     bool_field 7 (Blocked s) @ bool_field 8 (Active s)"

text \<open>
  Modelled from the spec: the serializer of a credential record, generated code of the package
  storage that is not among the sources.
\<close>

definition Marshal_Stream :: "Stream \<Rightarrow> byte list" where
  "Marshal_Stream s = concat (map put_field (Stream_fields s))"

text \<open>
  Modelled from the spec: the record a parser of the package storage (not among the sources)
  starts from, every field at the zero value of its type.
\<close>

definition Stream_zero :: Stream where
  "Stream_zero = \<lparr>Id' = '''', Application = '''', Name = '''', AuthKey = '''', AuthExpire = 0,
     Notes = '''', Blocked = False, Active = False\<rparr>"

text \<open>
  Modelled from the spec: what the parser of the package storage (not among the sources) does
  with one field of a credential record; a field it does not know is skipped.
\<close>

fun Stream_set :: "Stream \<Rightarrow> nat \<times> wire \<Rightarrow> Stream" where
  "Stream_set s (num, LengthDelimited bs) =
     (if num = 1 then s\<lparr>Id' := to_string bs\<rparr>
      else if num = 2 then s\<lparr>Application := to_string bs\<rparr>
      else if num = 3 then s\<lparr>Name := to_string bs\<rparr>
      else if num = 4 then s\<lparr>AuthKey := to_string bs\<rparr>
      else if num = 6 then s\<lparr>Notes := to_string bs\<rparr>
      else s)"
| "Stream_set s (num, Varint n) =
     (if num = 5 then s\<lparr>AuthExpire := of_nat n\<rparr>
      else if num = 7 then s\<lparr>Blocked := (n \<noteq> 0)\<rparr>
      else if num = 8 then s\<lparr>Active := (n \<noteq> 0)\<rparr>
      else s)"
| "Stream_set s (num, Fixed64 bs) = s"
| "Stream_set s (num, Fixed32 bs) = s"

text \<open>
  Modelled from the spec: the parser of a credential record, generated code of the package
  storage that is not among the sources.
\<close>

definition Unmarshal_Stream :: "byte list \<Rightarrow> Stream option" where
  "Unmarshal_Stream bs =
     (case get_fields bs of None \<Rightarrow> None | Some fs \<Rightarrow> Some (foldl Stream_set Stream_zero fs))"

text \<open>
  Modelled from the spec: the fields of the persisted state, which the message type of the
  package storage (not among the sources) declares: the shared secret, the control-plane URL,
  and the credential records in their order, one field each.
\<close>

definition State_fields :: "State \<Rightarrow> (nat \<times> wire) list" where
  "State_fields s =
     bytes_field 1 (Secret s) @ string_field 2 (CtrlUrl s) @
     map (\<lambda>stream. (3, LengthDelimited (Marshal_Stream stream))) (Streams s)"

text \<open>
  Modelled from the spec: \<^verbatim>\<open>proto.Marshal\<close> on the state, library and
  generated code of the package storage that are not among the sources.
\<close>

definition Marshal_State :: "State \<Rightarrow> byte list option" where
  "Marshal_State s = Some (concat (map put_field (State_fields s)))"

text \<open>
  Modelled from the spec: the state a parser of the package storage (not among the sources)
  starts from: \<^verbatim>\<open>proto.Unmarshal\<close> resets the message first.
\<close>

definition State_zero :: State where
  "State_zero = \<lparr>Secret = [], CtrlUrl = '''', Streams = []\<rparr>"

text \<open>
  Modelled from the spec: what the parser of the package storage (not among the sources) does
  with one field of the state; a record that does not parse is an error, a field it does not
  know is skipped.
\<close>

fun State_set :: "State \<Rightarrow> nat \<times> wire \<Rightarrow> State option" where
  "State_set s (num, LengthDelimited bs) =
     (if num = 1 then Some (s\<lparr>Secret := bs\<rparr>)
      else if num = 2 then Some (s\<lparr>CtrlUrl := to_string bs\<rparr>)
      else if num = 3 then
        (case Unmarshal_Stream bs of
           None \<Rightarrow> None
         | Some stream \<Rightarrow> Some (s\<lparr>Streams := Streams s @ [stream]\<rparr>))
      else Some s)"
| "State_set s (num, Varint n) = Some s"
| "State_set s (num, Fixed64 bs) = Some s"
| "State_set s (num, Fixed32 bs) = Some s"

text \<open>
  Modelled from the spec: the parser of the package storage (not among the sources) taking the
  fields of the state one after the other.
\<close>

fun State_sets :: "State \<Rightarrow> (nat \<times> wire) list \<Rightarrow> State option" where
  "State_sets s [] = Some s"
| "State_sets s (f # fs) =
     (case State_set s f of None \<Rightarrow> None | Some s1 \<Rightarrow> State_sets s1 fs)"

text \<open>
  Modelled from the spec: \<^verbatim>\<open>proto.Unmarshal\<close> on the state, library and
  generated code of the package storage that are not among the sources.
\<close>

definition Unmarshal_State :: "byte list \<Rightarrow> State option" where
  "Unmarshal_State bs =
     (case get_fields bs of None \<Rightarrow> None | Some fs \<Rightarrow> State_sets State_zero fs)"

subsection \<open>Example states\<close>

text \<open>
  A small registry for concrete evaluations: two credentials for the slot live/s1, the
  first one publishing and without expiry, the second one idle and expiring at second 5;
  an environment in which every write succeeds and the relay answers 200.
\<close>

definition stream_k1 :: Stream where
  "stream_k1 = \<lparr>Id' = ''a'', Application = ''live'', Name = ''s1'', AuthKey = ''k1'',
     AuthExpire = - 1, Notes = '''', Blocked = False, Active = True\<rparr>"

definition stream_k2 :: Stream where
  "stream_k2 = \<lparr>Id' = ''b'', Application = ''live'', Name = ''s1'', AuthKey = ''k2'',
     AuthExpire = 5, Notes = '''', Blocked = False, Active = False\<rparr>"

definition example_store :: Store where
  "example_store =
     \<lparr>State = \<lparr>Secret = [], CtrlUrl = ''http://relay'', Streams = [stream_k1, stream_k2]\<rparr>,
      Disk = None, Saves = 0, Requests = [], Log = []\<rparr>"

definition example_env :: Env where
  "example_env =
     \<lparr>Marshal = (\<lambda>s. Some []), Unmarshal = (\<lambda>b. None),
      WriteFile_ok = (\<lambda>n. True), Rename_ok = (\<lambda>n. True), ReadFile_ok = True,
      HttpGet = (\<lambda>n url. HttpResult (Some 200) None)\<rparr>"


text \<open>
  The same registry with both credentials publishing, and that one again without a
  control URL.
\<close>

definition contended_store :: Store where
  "contended_store = with_Streams example_store [stream_k1, stream_k2\<lparr>Active := True\<rparr>]"

definition unconfigured_store :: Store where
  "unconfigured_store = contended_store\<lparr>State := (State contended_store)\<lparr>CtrlUrl := ''''\<rparr>\<rparr>"


text \<open>The environment of the examples with the serializer and parser of the persisted file.\<close>

definition proto_env :: Env where
  "proto_env = example_env\<lparr>Marshal := Marshal_State, Unmarshal := Unmarshal_State\<rparr>"


section \<open>Properties\<close>

subsection \<open>The authorization decision\<close>

lemma IsActiveByAppName_loop_eq:
  "IsActiveByAppName_loop ss app name active =
     (active \<or> (\<exists>s \<in> set ss. Application s = app \<and> Name s = name \<and> Active s))"
  by (induction ss app name active rule: IsActiveByAppName_loop.induct) auto

lemma Auth_loop_find:
  "Auth_loop store ss app name auth =
     (case find (\<lambda>s. Application s = app \<and> Name s = name \<and> AuthKey s = auth) ss of
        None \<Rightarrow> ('''', Some (AuthError ''Publish denied. Access unauthorized'' ''unauthorized''))
      | Some m \<Rightarrow>
          if Blocked m then (Id' m, Some (AuthError ''Publish denied. Stream blocked.'' ''blocked''))
          else if Active m then (Id' m, None)
          else if IsActiveByAppName store app name
          then (Id' m, Some (AuthError ''Publish denied. Resource busy.'' ''busy''))
          else (Id' m, None))"
  by (induction ss) (simp_all add: Let_def)

text \<open>
  Claim C1. \<^verbatim>\<open>Auth\<close> decides on the first stream, in the order of the list, whose
  application, name and key are the given ones (\<open>find\<close> returns it). Without such a stream
  the result is the empty identifier and the error with reason unauthorized. With one, the
  identifier is the one of that stream, and the error is: blocked when the stream is
  blocked; none (granted) when it is unblocked and active; busy when it is unblocked and
  inactive and some other stream of the same application and name is active; none (granted)
  otherwise.
\<close>

theorem Auth_decision:
  "Auth store app name auth =
     (case find (\<lambda>s. Application s = app \<and> Name s = name \<and> AuthKey s = auth)
             (Streams (State store)) of
        None \<Rightarrow> ('''', Some (AuthError ''Publish denied. Access unauthorized'' ''unauthorized''))
      | Some m \<Rightarrow>
          if Blocked m then (Id' m, Some (AuthError ''Publish denied. Stream blocked.'' ''blocked''))
          else if Active m then (Id' m, None)
          else if (\<exists>s \<in> set (Streams (State store)).
                     s \<noteq> m \<and> Application s = app \<and> Name s = name \<and> Active s)
          then (Id' m, Some (AuthError ''Publish denied. Resource busy.'' ''busy''))
          else (Id' m, None))"
proof (cases "find (\<lambda>s. Application s = app \<and> Name s = name \<and> AuthKey s = auth)
                (Streams (State store))")
  case None
  then show ?thesis by (simp add: Auth_def Auth_loop_find)
next
  case (Some m)
  have "\<not> Active m \<Longrightarrow> IsActiveByAppName store app name =
        (\<exists>s \<in> set (Streams (State store)).
           s \<noteq> m \<and> Application s = app \<and> Name s = name \<and> Active s)"
    by (auto simp: IsActiveByAppName_def IsActiveByAppName_loop_eq)
  with Some show ?thesis by (simp add: Auth_def Auth_loop_find)
qed

subsection \<open>Saving\<close>

lemma save_State: "State (snd (save env store)) = State store"
  by (simp add: save_def Let_def split: option.splits)

lemma save_cases:
  "fst (save env store) \<in>
     {None, Some Save_EncodeFailed, Some Save_WriteFailed, Some Save_MoveFailed}"
  by (simp add: save_def Let_def split: option.splits)

lemma save_pass:
  "(case save env store of (Some e, store2) \<Rightarrow> (Some e, store2) | (None, store2) \<Rightarrow> (None, store2)) =
     save env store"
  by (cases "save env store") (auto split: option.splits)

lemma save_explicit:
  "save env store =
     (if Marshal env (State store) \<noteq> None \<and> WriteFile_ok env (Saves store) \<and> Rename_ok env (Saves store)
      then (None, store\<lparr>Saves := Suc (Saves store), Disk := Marshal env (State store)\<rparr>)
      else (Some (if Marshal env (State store) = None then Save_EncodeFailed
                  else if \<not> WriteFile_ok env (Saves store) then Save_WriteFailed
                  else Save_MoveFailed),
            store\<lparr>Saves := Suc (Saves store)\<rparr>))"
  by (auto simp: save_def Let_def split: option.splits)

lemma with_Streams_same: "with_Streams store (Streams (State store)) = store"
  by (simp add: with_Streams_def)

lemma State_with_Streams: "Streams (State (with_Streams store ss)) = ss"
  by (simp add: with_Streams_def)

subsection \<open>Removing an unknown identifier\<close>

lemma RemoveStream_loop_absent:
  "id' \<notin> Id' ` set s \<Longrightarrow> fst (RemoveStream_loop s id' pos index) = False"
  by (induction s arbitrary: pos index) auto

text \<open>
  Claim C3, as amended. When no stream has the identifier, \<^verbatim>\<open>RemoveStream\<close> does what
  \<^verbatim>\<open>save\<close> does on the unchanged store and returns what \<^verbatim>\<open>save\<close> returns: nil, or
  one of the three errors of \<^verbatim>\<open>save\<close>. The state in memory stays as it was. There is no
  error for the missing identifier.
\<close>

theorem RemoveStream_unknown:
  "id' \<notin> Id' ` set (Streams (State store)) \<Longrightarrow>
     RemoveStream env id' store = save env store \<and>
     State (snd (RemoveStream env id' store)) = State store \<and>
     fst (RemoveStream env id' store) \<in>
       {None, Some Save_EncodeFailed, Some Save_WriteFailed, Some Save_MoveFailed}"
proof -
  assume a: "id' \<notin> Id' ` set (Streams (State store))"
  obtain found index
    where fi: "RemoveStream_loop (Streams (State store)) id' 0 0 = (found, index)"
    by (cases "RemoveStream_loop (Streams (State store)) id' 0 0")
  with RemoveStream_loop_absent [OF a, of 0 0] have "found = False" by simp
  with fi have "RemoveStream env id' store = save env store"
    by (simp add: RemoveStream_def Let_def save_pass)
  then show ?thesis using save_cases [of env store] by (simp add: save_State)
qed

theorem RemoveStream_unknown_witness:
  "''zz'' \<notin> Id' ` set (Streams (State example_store)) \<and>
   RemoveStream example_env ''zz'' example_store = save example_env example_store \<and>
   State (snd (RemoveStream example_env ''zz'' example_store)) = State example_store"
proof -
  have h: "''zz'' \<notin> Id' ` set (Streams (State example_store))"
    by (simp add: example_store_def stream_k1_def stream_k2_def)
  from h RemoveStream_unknown [OF h, of example_env] show ?thesis by blast
qed

text \<open>
  The claim as the specification has it fails: in the example registry no stream has the
  identifier \<open>zz\<close>, and \<^verbatim>\<open>RemoveStream\<close> returns nil, with one more call of \<^verbatim>\<open>save\<close>.
\<close>

theorem RemoveStream_unknown_counterexample:
  "''zz'' \<notin> Id' ` set (Streams (State example_store)) \<and>
   RemoveStream example_env ''zz'' example_store =
     (None, example_store\<lparr>Disk := Some [], Saves := 1\<rparr>)"
  by (simp add: RemoveStream_def save_def example_store_def example_env_def
      stream_k1_def stream_k2_def)

subsection \<open>Unpublishing\<close>

lemma SetInactive_loop_eq:
  "SetInactive_loop seen todo app name stateChange =
     (seen @ map (\<lambda>s. if Application s = app \<and> Name s = name then s\<lparr>Active := False\<rparr> else s) todo,
      stateChange \<or> (\<exists>s \<in> set todo. Application s = app \<and> Name s = name \<and> Active s))"
proof (induction todo arbitrary: seen stateChange)
  case Nil
  then show ?case by simp
next
  case (Cons stream rest)
  have "\<not> Active stream \<Longrightarrow> stream\<lparr>Active := False\<rparr> = stream" by simp
  then show ?case using Cons by auto
qed

lemma map_deact_id:
  "\<not> (\<exists>s \<in> set ss. Application s = app \<and> Name s = name \<and> Active s) \<Longrightarrow>
   map (\<lambda>s. if Application s = app \<and> Name s = name then s\<lparr>Active := False\<rparr> else s) ss = ss"
  by (induction ss) auto

text \<open>
  Claim C4. When no stream of the application and name is active, \<^verbatim>\<open>SetInactive\<close> returns
  its not-found error and the store is what it was (no flag changed, \<^verbatim>\<open>save\<close> not called).
  When one is active, the streams afterwards are the streams before with the flag cleared
  in every stream of that application and name, the others as they were; the store is
  saved once, and the result is nil or the save error of \<^verbatim>\<open>SetInactive\<close>.
\<close>

theorem SetInactive_spec:
  "(if \<exists>s \<in> set (Streams (State store)). Application s = app \<and> Name s = name \<and> Active s
    then SetInactive env app name store =
           (case save env (with_Streams store
                   (map (\<lambda>s. if Application s = app \<and> Name s = name then s\<lparr>Active := False\<rparr> else s)
                      (Streams (State store)))) of
              (Some e, store2) \<Rightarrow> (Some (SetInactive_SaveFailed app name), store2)
            | (None, store2) \<Rightarrow> (None, store2)) \<and>
         Streams (State (snd (SetInactive env app name store))) =
           map (\<lambda>s. if Application s = app \<and> Name s = name then s\<lparr>Active := False\<rparr> else s)
             (Streams (State store))
    else SetInactive env app name store = (Some (SetInactive_NotFound app name), store))"
proof (cases "\<exists>s \<in> set (Streams (State store)). Application s = app \<and> Name s = name \<and> Active s")
  case True
  let ?ss = "map (\<lambda>s. if Application s = app \<and> Name s = name then s\<lparr>Active := False\<rparr> else s)
             (Streams (State store))"
  from True have eq: "SetInactive env app name store =
           (case save env (with_Streams store ?ss) of
              (Some e, store2) \<Rightarrow> (Some (SetInactive_SaveFailed app name), store2)
            | (None, store2) \<Rightarrow> (None, store2))"
    by (simp add: SetInactive_def SetInactive_loop_eq)
  have "snd (SetInactive env app name store) = snd (save env (with_Streams store ?ss))"
    unfolding eq by (cases "save env (with_Streams store ?ss)") (auto split: option.splits)
  then have "Streams (State (snd (SetInactive env app name store))) = ?ss"
    by (simp add: save_State State_with_Streams)
  with True eq show ?thesis by simp
next
  case False
  then show ?thesis
    by (simp add: SetInactive_def SetInactive_loop_eq map_deact_id with_Streams_same
        del: bex_simps)
qed

theorem SetInactive_spec_witness:
  "SetInactive example_env ''live'' ''s2'' example_store =
     (Some (SetInactive_NotFound ''live'' ''s2''), example_store) \<and>
   Streams (State (snd (SetInactive example_env ''live'' ''s1'' example_store))) =
     [stream_k1\<lparr>Active := False\<rparr>, stream_k2]"
proof -
  have idle: "\<not> (\<exists>s \<in> set (Streams (State example_store)).
      Application s = ''live'' \<and> Name s = ''s2'' \<and> Active s)"
    by (simp add: example_store_def stream_k1_def stream_k2_def)
  have busy: "\<exists>s \<in> set (Streams (State example_store)).
      Application s = ''live'' \<and> Name s = ''s1'' \<and> Active s"
    by (simp add: example_store_def stream_k1_def stream_k2_def)
  have cleared: "map (\<lambda>s. if Application s = ''live'' \<and> Name s = ''s1''
        then s\<lparr>Active := False\<rparr> else s) (Streams (State example_store)) =
      [stream_k1\<lparr>Active := False\<rparr>, stream_k2]"
    by (simp add: example_store_def stream_k1_def stream_k2_def)
  have 1: "SetInactive example_env ''live'' ''s2'' example_store =
     (Some (SetInactive_NotFound ''live'' ''s2''), example_store)"
    using SetInactive_spec [of example_store "''live''" "''s2''" example_env] idle
    by (simp only: if_False)
  have "Streams (State (snd (SetInactive example_env ''live'' ''s1'' example_store))) =
      map (\<lambda>s. if Application s = ''live'' \<and> Name s = ''s1''
        then s\<lparr>Active := False\<rparr> else s) (Streams (State example_store))"
    using SetInactive_spec [of example_store "''live''" "''s1''" example_env, unfolded if_P [OF busy]]
    by (rule conjunct2)
  with cleared 1 show ?thesis by simp
qed

subsection \<open>Publishing\<close>

lemma SetActive_loop_absent:
  "id' \<notin> Id' ` set todo \<Longrightarrow>
     SetActive_loop env store seen todo id' = (Some (SetActive_NotFound id'), store)"
  by (induction todo arbitrary: seen) auto

lemma SetActive_loop_found:
  "id' \<notin> Id' ` set pre \<Longrightarrow> Id' stream = id' \<Longrightarrow>
     SetActive_loop env store seen (pre @ stream # post) id' =
       (case save env (with_Streams store (seen @ pre @ stream\<lparr>Active := True\<rparr> # post)) of
          (Some e, store2) \<Rightarrow>
            (Some (SetActive_SaveFailed id' (Application stream) (Name stream)), store2)
        | (None, store2) \<Rightarrow> (None, store2))"
  by (induction pre arbitrary: seen) auto

text \<open>
  Claim C5. When no stream has the identifier, \<^verbatim>\<open>SetActive\<close> returns its not-found error
  and the store is what it was. When \<open>stream\<close> is the first stream with the identifier, the
  store afterwards is the store with the flag of that stream set, after one call of
  \<^verbatim>\<open>save\<close>: the count of saves is one higher; the result is nil exactly when the new state
  could be marshalled, written and renamed, and then the file holds the marshalled new
  state; otherwise the result is the save error of \<^verbatim>\<open>SetActive\<close> and the file is what it
  was, while the flag is set in memory all the same.
\<close>

theorem SetActive_spec:
  "(id' \<notin> Id' ` set (Streams (State store)) \<longrightarrow>
      SetActive env id' store = (Some (SetActive_NotFound id'), store)) \<and>
   (\<forall>pre stream post.
      Streams (State store) = pre @ stream # post \<and> Id' stream = id' \<and> id' \<notin> Id' ` set pre \<longrightarrow>
      snd (SetActive env id' store) =
        snd (save env (with_Streams store (pre @ stream\<lparr>Active := True\<rparr> # post))) \<and>
      Streams (State (snd (SetActive env id' store))) = pre @ stream\<lparr>Active := True\<rparr> # post \<and>
      (fst (save env (with_Streams store (pre @ stream\<lparr>Active := True\<rparr> # post))) = None \<longrightarrow>
         fst (SetActive env id' store) = None) \<and>
      (fst (save env (with_Streams store (pre @ stream\<lparr>Active := True\<rparr> # post))) \<noteq> None \<longrightarrow>
         fst (SetActive env id' store) =
           Some (SetActive_SaveFailed id' (Application stream) (Name stream))) \<and>
      Saves (snd (SetActive env id' store)) = Suc (Saves store) \<and>
      (fst (SetActive env id' store) = None) =
        (Marshal env ((State store)\<lparr>Streams := pre @ stream\<lparr>Active := True\<rparr> # post\<rparr>) \<noteq> None \<and>
         WriteFile_ok env (Saves store) \<and> Rename_ok env (Saves store)) \<and>
      Disk (snd (SetActive env id' store)) =
        (if fst (SetActive env id' store) = None
         then Marshal env ((State store)\<lparr>Streams := pre @ stream\<lparr>Active := True\<rparr> # post\<rparr>)
         else Disk store))"
proof (intro conjI allI impI)
  assume "id' \<notin> Id' ` set (Streams (State store))"
  then show "SetActive env id' store = (Some (SetActive_NotFound id'), store)"
    by (simp add: SetActive_def SetActive_loop_absent)
next
  fix pre :: "Stream list" and stream :: Stream and post :: "Stream list"
  let ?ss = "pre @ stream\<lparr>Active := True\<rparr> # post"
  let ?store1 = "with_Streams store ?ss"
  let ?ok = "Marshal env ((State store)\<lparr>Streams := ?ss\<rparr>) \<noteq> None \<and>
         WriteFile_ok env (Saves store) \<and> Rename_ok env (Saves store)"
  assume a: "Streams (State store) = pre @ stream # post \<and> Id' stream = id' \<and> id' \<notin> Id' ` set pre"
  then have eq: "SetActive env id' store =
       (case save env ?store1 of
          (Some e, store2) \<Rightarrow>
            (Some (SetActive_SaveFailed id' (Application stream) (Name stream)), store2)
        | (None, store2) \<Rightarrow> (None, store2))"
    using SetActive_loop_found [of id' pre stream env store "[]" post]
    by (simp add: SetActive_def)
  show s: "snd (SetActive env id' store) = snd (save env ?store1)"
    unfolding eq by (cases "save env ?store1") (auto split: option.splits)
  show "Streams (State (snd (SetActive env id' store))) = ?ss"
    unfolding s by (simp add: save_State State_with_Streams)
  show "fst (SetActive env id' store) = None" if "fst (save env ?store1) = None"
    using that unfolding eq by (cases "save env ?store1") (auto split: option.splits)
  show "fst (SetActive env id' store) =
           Some (SetActive_SaveFailed id' (Application stream) (Name stream))"
    if "fst (save env ?store1) \<noteq> None"
    using that unfolding eq by (cases "save env ?store1") (auto split: option.splits)
  have f: "(fst (SetActive env id' store) = None) = (fst (save env ?store1) = None)"
    unfolding eq by (cases "save env ?store1") (auto split: option.splits)
  show "Saves (snd (SetActive env id' store)) = Suc (Saves store)"
    unfolding s by (simp add: save_explicit with_Streams_def)
  show ok: "(fst (SetActive env id' store) = None) = ?ok"
    unfolding f by (simp add: save_explicit with_Streams_def)
  show "Disk (snd (SetActive env id' store)) =
        (if fst (SetActive env id' store) = None
         then Marshal env ((State store)\<lparr>Streams := ?ss\<rparr>) else Disk store)"
    unfolding ok s by (auto simp: save_explicit with_Streams_def)
qed

theorem SetActive_spec_witness:
  "SetActive example_env ''zz'' example_store = (Some (SetActive_NotFound ''zz''), example_store) \<and>
   Streams (State (snd (SetActive (example_env\<lparr>WriteFile_ok := \<lambda>n. False\<rparr>) ''b'' example_store))) =
     [stream_k1, stream_k2\<lparr>Active := True\<rparr>] \<and>
   fst (SetActive (example_env\<lparr>WriteFile_ok := \<lambda>n. False\<rparr>) ''b'' example_store) =
     Some (SetActive_SaveFailed ''b'' ''live'' ''s1'') \<and>
   Disk (snd (SetActive (example_env\<lparr>WriteFile_ok := \<lambda>n. False\<rparr>) ''b'' example_store)) = None \<and>
   Saves (snd (SetActive (example_env\<lparr>WriteFile_ok := \<lambda>n. False\<rparr>) ''b'' example_store)) = 1 \<and>
   fst (SetActive example_env ''b'' example_store) = None \<and>
   Disk (snd (SetActive example_env ''b'' example_store)) = Some [] \<and>
   Saves (snd (SetActive example_env ''b'' example_store)) = 1"
proof -
  let ?failing = "example_env\<lparr>WriteFile_ok := \<lambda>n. False\<rparr>"
  let ?st1 = "(State example_store)\<lparr>Streams := [stream_k1] @ stream_k2\<lparr>Active := True\<rparr> # []\<rparr>"
  have absent: "''zz'' \<notin> Id' ` set (Streams (State example_store))"
    by (simp add: example_store_def stream_k1_def stream_k2_def)
  have split: "Streams (State example_store) = [stream_k1] @ stream_k2 # [] \<and>
      Id' stream_k2 = ''b'' \<and> ''b'' \<notin> Id' ` set [stream_k1]"
    by (simp add: example_store_def stream_k1_def stream_k2_def)
  have fails: "fst (save ?failing
      (with_Streams example_store ([stream_k1] @ stream_k2\<lparr>Active := True\<rparr> # []))) \<noteq> None"
    by (simp add: save_def example_env_def)
  have succeeds: "fst (save example_env
      (with_Streams example_store ([stream_k1] @ stream_k2\<lparr>Active := True\<rparr> # []))) = None"
    by (simp add: save_def example_env_def)
  have names: "Application stream_k2 = ''live''" "Name stream_k2 = ''s1''"
    by (simp_all add: stream_k2_def)
  have world: "Disk example_store = None" "Saves example_store = 0"
    by (simp_all add: example_store_def)
  have writes: "\<not> (Marshal ?failing ?st1 \<noteq> None \<and> WriteFile_ok ?failing (Saves example_store) \<and>
        Rename_ok ?failing (Saves example_store))"
    "Marshal example_env ?st1 \<noteq> None \<and> WriteFile_ok example_env (Saves example_store) \<and>
        Rename_ok example_env (Saves example_store)"
    "Marshal example_env ?st1 = Some []"
    by (simp_all add: example_env_def)
  from SetActive_spec [of "''zz''" example_store example_env] absent
  have 1: "SetActive example_env ''zz'' example_store =
      (Some (SetActive_NotFound ''zz''), example_store)"
    by blast
  note f = SetActive_spec [of "''b''" example_store ?failing, THEN conjunct2, rule_format,
      of "[stream_k1]" stream_k2 "[]", OF split]
  note g = SetActive_spec [of "''b''" example_store example_env, THEN conjunct2, rule_format,
      of "[stream_k1]" stream_k2 "[]", OF split]
  have 2: "Streams (State (snd (SetActive ?failing ''b'' example_store))) =
      [stream_k1, stream_k2\<lparr>Active := True\<rparr>]"
    using f [THEN conjunct2, THEN conjunct1] by simp
  have 3: "fst (SetActive ?failing ''b'' example_store) =
      Some (SetActive_SaveFailed ''b'' ''live'' ''s1'')"
    using fails f [THEN conjunct2, THEN conjunct2, THEN conjunct2, THEN conjunct1] names by simp
  have 4: "Saves (snd (SetActive ?failing ''b'' example_store)) = 1"
    using f [THEN conjunct2, THEN conjunct2, THEN conjunct2, THEN conjunct2, THEN conjunct1] world by simp
  have nf: "fst (SetActive ?failing ''b'' example_store) \<noteq> None"
    using f [THEN conjunct2, THEN conjunct2, THEN conjunct2, THEN conjunct2, THEN conjunct2, THEN conjunct1] writes(1) by blast
  have 5: "Disk (snd (SetActive ?failing ''b'' example_store)) = None"
    using f [THEN conjunct2, THEN conjunct2, THEN conjunct2, THEN conjunct2, THEN conjunct2, THEN conjunct2] world(1)
    by (simp only: nf if_False)
  have 6: "fst (SetActive example_env ''b'' example_store) = None"
    using g [THEN conjunct2, THEN conjunct2, THEN conjunct2, THEN conjunct2, THEN conjunct2, THEN conjunct1] writes(2) by blast
  have 7: "Saves (snd (SetActive example_env ''b'' example_store)) = 1"
    using g [THEN conjunct2, THEN conjunct2, THEN conjunct2, THEN conjunct2, THEN conjunct1] world by simp
  have 8: "Disk (snd (SetActive example_env ''b'' example_store)) = Some []"
    using g [THEN conjunct2, THEN conjunct2, THEN conjunct2, THEN conjunct2, THEN conjunct2, THEN conjunct2] writes(3)
    by (simp add: 6)
  from 1 2 3 4 5 6 7 8 show ?thesis by blast
qed

subsection \<open>Blocking an unknown identifier\<close>

lemma SetBlocked_loop_absent:
  "id' \<notin> Id' ` set todo \<Longrightarrow> SetBlocked_loop env store seen todo id' state = (None, store)"
  by (induction todo arbitrary: seen) auto

text \<open>
  Claim C10, as amended. When no stream has the identifier, \<^verbatim>\<open>SetBlocked\<close> returns nil and
  the store is what it was: no flag has changed, \<^verbatim>\<open>save\<close> was not called (\<open>Saves\<close> and
  \<open>Disk\<close> are fields of the store). \<^verbatim>\<open>SetActive\<close> on the same identifier returns its
  not-found error.
\<close>

theorem SetBlocked_unknown:
  "id' \<notin> Id' ` set (Streams (State store)) \<Longrightarrow>
     SetBlocked env id' state store = (None, store) \<and>
     SetActive env id' store = (Some (SetActive_NotFound id'), store)"
  by (simp add: SetBlocked_def SetBlocked_loop_absent SetActive_def SetActive_loop_absent)

theorem SetBlocked_unknown_witness:
  "''zz'' \<notin> Id' ` set (Streams (State example_store)) \<and>
   SetBlocked example_env ''zz'' True example_store = (None, example_store) \<and>
   SetActive example_env ''zz'' example_store = (Some (SetActive_NotFound ''zz''), example_store)"
proof -
  have h: "''zz'' \<notin> Id' ` set (Streams (State example_store))"
    by (simp add: example_store_def stream_k1_def stream_k2_def)
  from h SetBlocked_unknown [OF h, of example_env True] show ?thesis by blast
qed

text \<open>
  The claim as the specification has it sets \<^verbatim>\<open>SetBlocked\<close> apart from the other mutations
  that take an identifier. That fails for \<^verbatim>\<open>RemoveStream\<close>: on the unknown identifier
  \<open>zz\<close> it returns nil as well.
\<close>

theorem SetBlocked_unknown_counterexample:
  "''zz'' \<notin> Id' ` set (Streams (State example_store)) \<and>
   SetBlocked example_env ''zz'' True example_store = (None, example_store) \<and>
   fst (RemoveStream example_env ''zz'' example_store) = None"
  by (simp add: SetBlocked_def RemoveStream_def save_def example_store_def example_env_def
      stream_k1_def stream_k2_def)

subsection \<open>The expiry sweep\<close>

lemma Expire_scan_eq:
  "Expire_scan ss now toDelete lg =
     (toDelete @ map Id' (filter (\<lambda>s. AuthExpire s \<noteq> - 1 \<and> AuthExpire s <s now) ss),
      lg @ map (\<lambda>s. LogExpiring (Application s) (Name s))
             (filter (\<lambda>s. AuthExpire s \<noteq> - 1 \<and> AuthExpire s <s now) ss))"
  by (induction ss arbitrary: toDelete lg) auto

lemma another_published_eq:
  "another_published ss app name id' =
     (\<exists>s \<in> set ss. Application s = app \<and> Name s = name \<and> Active s \<and> Id' s \<noteq> id')"
  by (induction ss) auto

lemma snd_save_wrap:
  "snd (case save env store of (Some e, store2) \<Rightarrow> (Some (f e), store2) | (None, store2) \<Rightarrow> (None, store2)) =
     snd (save env store)"
  by (cases "save env store") (auto split: option.splits)

lemma SetInactive_Streams:
  "Streams (State (snd (SetInactive env app name store))) =
     map (\<lambda>s. if Application s = app \<and> Name s = name then s\<lparr>Active := False\<rparr> else s)
       (Streams (State store))"
proof (cases "\<exists>s \<in> set (Streams (State store)). Application s = app \<and> Name s = name \<and> Active s")
  case True
  then show ?thesis
    by (simp add: SetInactive_def SetInactive_loop_eq snd_save_wrap save_State State_with_Streams)
next
  case False
  then show ?thesis 
    by (simp add: SetInactive_def SetInactive_loop_eq map_deact_id with_Streams_same
        del: bex_simps)
qed

lemma deact_keeps:
  assumes "\<not> (\<exists>s \<in> set ss. Application s = app \<and> Name s = name \<and> Active s \<and> Id' s \<noteq> id')"
  shows "filter (\<lambda>s. Id' s \<noteq> id')
           (map (\<lambda>s. if Application s = app \<and> Name s = name then s\<lparr>Active := False\<rparr> else s) ss) =
         filter (\<lambda>s. Id' s \<noteq> id') ss"
  using assms
proof (induction ss)
  case Nil
  then show ?case by simp
next
  case (Cons s ss)
  have "\<not> Active s \<Longrightarrow> s\<lparr>Active := False\<rparr> = s" by simp
  with Cons show ?case by auto
qed

lemma deact_ids:
  "map Id' (map (\<lambda>s. if Application s = app \<and> Name s = name then s\<lparr>Active := False\<rparr> else s) ss) =
   map Id' ss"
  by (induction ss) auto

lemma DropStreamPublisher_Streams:
  "map Id' (Streams (State (DropStreamPublisher env store id'))) = map Id' (Streams (State store)) \<and>
   filter (\<lambda>s. Id' s \<noteq> id') (Streams (State (DropStreamPublisher env store id'))) =
     filter (\<lambda>s. Id' s \<noteq> id') (Streams (State store))"
  by (auto simp: DropStreamPublisher_def Let_def SetInactive_Streams deact_ids deact_keeps
      another_published_eq split: sum.splits option.splits)


lemma RemoveStream_loop_eq:
  "RemoveStream_loop s id' pos index =
     (if id' \<in> Id' ` set s then (True, pos + length (takeWhile (\<lambda>x. Id' x \<noteq> id') s))
      else (False, if s = [] then index else pos + length s - 1))"
  by (induction s arbitrary: pos index) auto

lemma filter_absent:
  "id' \<notin> Id' ` set s \<Longrightarrow> filter (\<lambda>x. Id' x \<noteq> id') s = s"
  by (induction s) auto

lemma remove_first_distinct:
  "distinct (map Id' s) \<Longrightarrow> id' \<in> Id' ` set s \<Longrightarrow>
     take (length (takeWhile (\<lambda>x. Id' x \<noteq> id') s)) s @
       drop (Suc (length (takeWhile (\<lambda>x. Id' x \<noteq> id') s))) s =
     filter (\<lambda>x. Id' x \<noteq> id') s"
proof (induction s)
  case Nil
  then show ?case by simp
next
  case (Cons x s)
  show ?case
  proof (cases "Id' x = id'")
    case True
    with Cons.prems have "id' \<notin> Id' ` set s" by simp
    then have "filter (\<lambda>x. Id' x \<noteq> id') s = s" by (rule filter_absent)
    with True show ?thesis by simp
  next
    case False
    with Cons show ?thesis by auto
  qed
qed

lemma RemoveStream_Streams:
  assumes "distinct (map Id' (Streams (State store)))"
  shows "Streams (State (snd (RemoveStream env id' store))) =
           filter (\<lambda>x. Id' x \<noteq> id') (Streams (State store))"
proof (cases "id' \<in> Id' ` set (Streams (State store))")
  case True
  with assms show ?thesis
    by (simp add: RemoveStream_def Let_def RemoveStream_loop_eq save_pass save_State
        State_with_Streams remove_first_distinct)
next
  case False
  then show ?thesis
    by (simp add: RemoveStream_def Let_def RemoveStream_loop_eq save_pass save_State
        filter_absent)
qed

lemma Expire_delete_Streams:
  "distinct (map Id' (Streams (State store))) \<Longrightarrow>
     Streams (State (Expire_delete env ids store)) =
       filter (\<lambda>x. Id' x \<notin> set ids) (Streams (State store))"
proof (induction ids arbitrary: store)
  case Nil
  then show ?case by simp
next
  case (Cons i ids)
  let ?d = "DropStreamPublisher env store i"
  let ?r = "snd (RemoveStream env i ?d)"
  from Cons.prems have dd: "distinct (map Id' (Streams (State ?d)))"
    by (simp add: DropStreamPublisher_Streams)
  then have r: "Streams (State ?r) = filter (\<lambda>x. Id' x \<noteq> i) (Streams (State store))"
    by (simp add: RemoveStream_Streams DropStreamPublisher_Streams)
  with Cons.prems have "distinct (map Id' (Streams (State ?r)))"
    by (simp add: distinct_map_filter)
  from Cons.IH [OF this] r show ?case
    by simp
qed


text \<open>
  Claim C2, as amended. In a registry whose identifiers are distinct, the scan of \<^verbatim>\<open>Expire\<close>
  collects the identifiers of the streams whose expiry is not \<open>-1\<close> and lies before the
  sweep time (strictly: \<open><s\<close> is the signed order of \<^verbatim>\<open>int64\<close>), and after the sweep the
  list holds the other streams, each as it was and in the order they had. That holds
  whatever the relay answers and whether or not the writes succeed.
\<close>

theorem Expire_removes:
  assumes "distinct (map Id' (Streams (State store)))"
  shows "fst (Expire_scan (Streams (State store)) now [] (Log store)) =
           map Id' (filter (\<lambda>s. AuthExpire s \<noteq> - 1 \<and> AuthExpire s <s now) (Streams (State store))) \<and>
         Streams (State (Expire env now store)) =
           filter (\<lambda>s. \<not> (AuthExpire s \<noteq> - 1 \<and> AuthExpire s <s now)) (Streams (State store))"
proof -
  let ?P = "\<lambda>s. AuthExpire s \<noteq> - 1 \<and> AuthExpire s <s now"
  let ?ss = "Streams (State store)"
  from assms have inj: "inj_on Id' (set ?ss)" by (simp add: distinct_map)
  have "filter (\<lambda>x. Id' x \<notin> set (map Id' (filter ?P ?ss))) ?ss = filter (\<lambda>s. \<not> ?P s) ?ss"
  proof (rule filter_cong [OF refl])
    fix x assume x: "x \<in> set ?ss"
    have "Id' x \<in> Id' ` {s \<in> set ?ss. ?P s} \<longleftrightarrow> ?P x"
      using inj x by (auto dest: inj_onD)
    then show "(Id' x \<notin> set (map Id' (filter ?P ?ss))) = (\<not> ?P x)" by simp
  qed
  moreover have "Streams (State (Expire env now store)) =
      filter (\<lambda>x. Id' x \<notin> set (map Id' (filter ?P ?ss))) ?ss"
    using assms by (simp add: Expire_def Expire_scan_eq Expire_delete_Streams)
  ultimately show ?thesis by (simp add: Expire_scan_eq)
qed

theorem Expire_removes_witness:
  "distinct (map Id' (Streams (State example_store))) \<and>
   Streams (State (Expire example_env 6 example_store)) = [stream_k1]"
proof -
  have d: "distinct (map Id' (Streams (State example_store)))"
    by (simp add: example_store_def stream_k1_def stream_k2_def)
  have "filter (\<lambda>s. \<not> (AuthExpire s \<noteq> - 1 \<and> AuthExpire s <s 6)) (Streams (State example_store)) =
      [stream_k1]"
    by (simp add: example_store_def stream_k1_def stream_k2_def)
  with d Expire_removes [OF d, of 6 example_env] show ?thesis by simp
qed

text \<open>
  The claim as the specification has it, with expiry at or before the sweep time, fails:
  a stream that expires at second 5 is still there after the sweep of second 5.
\<close>

theorem Expire_at_expiry_counterexample:
  "stream_k2 \<in> set (Streams (State example_store)) \<and>
   AuthExpire stream_k2 \<noteq> - 1 \<and> AuthExpire stream_k2 \<le>s 5 \<and>
   stream_k2 \<in> set (Streams (State (Expire example_env 5 example_store)))"
  by (simp add: Expire_def example_store_def stream_k1_def stream_k2_def)

subsection \<open>Revocation without a control URL\<close>

text \<open>
  Claim C7, as amended. Without a control URL neither revocation function sends a request
  or changes the store. \<^verbatim>\<open>DropStreamPublisher\<close> returns and has written nothing;
  \<^verbatim>\<open>ReqDropStreamPublisher\<close> returns an error value, the one that says the control URL is
  not set, with \<^verbatim>\<open>RequestSent\<close> false.
\<close>

theorem revocation_unconfigured:
  "CtrlUrl (State store) = '''' \<Longrightarrow>
     ReqDropStreamPublisher env store id' = (Some (not_sent CtrlUrlNotSet), store) \<and>
     DropStreamPublisher env store id' = store"
  by (simp add: ReqDropStreamPublisher_def DropStreamPublisher_def)

theorem revocation_unconfigured_witness:
  "CtrlUrl (State unconfigured_store) = '''' \<and>
   ReqDropStreamPublisher example_env unconfigured_store ''a'' =
     (Some (not_sent CtrlUrlNotSet), unconfigured_store) \<and>
   DropStreamPublisher example_env unconfigured_store ''a'' = unconfigured_store"
proof -
  have h: "CtrlUrl (State unconfigured_store) = ''''"
    by (simp add: unconfigured_store_def)
  from h revocation_unconfigured [OF h, of example_env "''a''"] show ?thesis by blast
qed

text \<open>
  The claim as the specification has it, that the operation returns success and no error
  result, fails for \<^verbatim>\<open>ReqDropStreamPublisher\<close>: its result is not nil.
\<close>

theorem revocation_unconfigured_counterexample:
  "CtrlUrl (State unconfigured_store) = '''' \<and>
   fst (ReqDropStreamPublisher example_env unconfigured_store ''a'') =
     Some \<lparr>CMsg = CtrlUrlNotSet, RequestSent = False, GotValidResponse = False,
            Returncode = - 1, Err = None\<rparr> \<and>
   fst (ReqDropStreamPublisher example_env unconfigured_store ''a'') \<noteq> None"
  by (simp add: ReqDropStreamPublisher_def unconfigured_store_def not_sent_def)

subsection \<open>Revocation of a superseded credential\<close>

text \<open>
  Claim C6, as amended. With a control URL set, when the stream found for the identifier is
  active and a stream with another identifier is active on the same application and name,
  no request is sent and no stream changes: \<^verbatim>\<open>ReqDropStreamPublisher\<close> returns the error that
  publishing was granted to another stream, with \<^verbatim>\<open>RequestSent\<close> false, and leaves the
  store as it was; \<^verbatim>\<open>DropStreamPublisher\<close> writes the line that says so to the log and
  changes nothing else.
\<close>

theorem revocation_superseded:
  assumes "CtrlUrl (State store) \<noteq> ''''"
    and "GetStreamById store id' = Inr stream"
    and "Active stream"
    and "\<exists>s \<in> set (Streams (State store)).
           Id' s \<noteq> id' \<and> Application s = Application stream \<and> Name s = Name stream \<and> Active s"
  shows "ReqDropStreamPublisher env store id' =
           (Some (not_sent (OtherStreamGranted (Application stream) (Name stream))), store) \<and>
         DropStreamPublisher env store id' =
           store\<lparr>Log := Log store @ [LogNotDropping (Application stream) (Name stream)]\<rparr>"
proof -
  from assms(4) have "another_published (Streams (State store)) (Application stream) (Name stream) id'"
    by (auto simp: another_published_eq)
  with assms(1-3) show ?thesis
    by (simp add: ReqDropStreamPublisher_def DropStreamPublisher_def Let_def)
qed

theorem revocation_superseded_witness:
  "CtrlUrl (State contended_store) \<noteq> '''' \<and>
   GetStreamById contended_store ''a'' = Inr stream_k1 \<and> Active stream_k1 \<and>
   ReqDropStreamPublisher example_env contended_store ''a'' =
     (Some (not_sent (OtherStreamGranted ''live'' ''s1'')), contended_store) \<and>
   DropStreamPublisher example_env contended_store ''a'' =
     contended_store\<lparr>Log := [LogNotDropping ''live'' ''s1'']\<rparr>"
proof -
  have 1: "CtrlUrl (State contended_store) \<noteq> ''''"
    by (simp add: contended_store_def example_store_def with_Streams_def)
  have 2: "GetStreamById contended_store ''a'' = Inr stream_k1"
    by (simp add: GetStreamById_def contended_store_def example_store_def with_Streams_def
        stream_k1_def)
  have 3: "Active stream_k1" by (simp add: stream_k1_def)
  have 4: "\<exists>s \<in> set (Streams (State contended_store)).
      Id' s \<noteq> ''a'' \<and> Application s = Application stream_k1 \<and> Name s = Name stream_k1 \<and> Active s"
    by (simp add: contended_store_def example_store_def with_Streams_def stream_k1_def
        stream_k2_def)
  have 5: "Application stream_k1 = ''live''" "Name stream_k1 = ''s1''" "Log contended_store = []"
    by (simp_all add: stream_k1_def contended_store_def example_store_def with_Streams_def)
  from revocation_superseded [OF 1 2 3 4, of example_env] 1 2 3 5 show ?thesis by simp
qed

text \<open>
  The claim as the specification has it, for every registry, fails where no control URL is
  set: both credentials of live/s1 publish, and the revocation of the first reports that the
  control URL is not set (\<^verbatim>\<open>ReqDropStreamPublisher\<close>) or nothing at all
  (\<^verbatim>\<open>DropStreamPublisher\<close>), not that the credential was superseded.
\<close>

theorem revocation_superseded_counterexample:
  "GetStreamById unconfigured_store ''a'' = Inr stream_k1 \<and> Active stream_k1 \<and>
   stream_k2\<lparr>Active := True\<rparr> \<in> set (Streams (State unconfigured_store)) \<and>
   Id' (stream_k2\<lparr>Active := True\<rparr>) \<noteq> ''a'' \<and>
   Application (stream_k2\<lparr>Active := True\<rparr>) = Application stream_k1 \<and>
   Name (stream_k2\<lparr>Active := True\<rparr>) = Name stream_k1 \<and>
   Active (stream_k2\<lparr>Active := True\<rparr>) \<and>
   fst (ReqDropStreamPublisher example_env unconfigured_store ''a'') =
     Some (not_sent CtrlUrlNotSet) \<and>
   not_sent CtrlUrlNotSet \<noteq> not_sent (OtherStreamGranted ''live'' ''s1'') \<and>
   DropStreamPublisher example_env unconfigured_store ''a'' = unconfigured_store"
  by (simp add: ReqDropStreamPublisher_def DropStreamPublisher_def GetStreamById_def
      unconfigured_store_def contended_store_def example_store_def with_Streams_def
      stream_k1_def stream_k2_def not_sent_def)

subsection \<open>Saving and loading\<close>

lemma get_varint_shorter: "get_varint bs = Some (n, rest) \<Longrightarrow> length rest < length bs"
  by (induction bs arbitrary: n rest) (auto split: if_splits option.splits)

lemma get_field_shorter: "get_field bs = Some (f, rest) \<Longrightarrow> length rest < length bs"
  by (auto simp: get_field_def Let_def split: option.splits if_splits dest!: get_varint_shorter)
    arith+

lemma unat_byte: "n < 256 \<Longrightarrow> unat (of_nat n :: byte) = n"
  by (simp add: unat_of_nat)

lemma get_put_varint: "get_varint (put_varint n @ rest) = Some (n, rest)"
proof (induction n rule: put_varint.induct)
  case (1 n)
  show ?case
  proof (cases "n < 128")
    case True
    then show ?thesis by (simp add: put_varint.simps [of n] unat_byte)
  next
    case False
    have "n mod 128 + 128 < 256" by simp
    then have u: "unat (of_nat (n mod 128 + 128) :: byte) = n mod 128 + 128"
      by (rule unat_byte)
    from False 1 u show ?thesis by (simp add: put_varint.simps [of n])
  qed
qed

lemma put_varint_nonempty: "put_varint n \<noteq> []"
  by (simp add: put_varint.simps [of n])


lemma get_put_field_Varint:
  assumes "0 < num"
  shows "get_field (put_field (num, Varint n) @ rest) = Some ((num, Varint n), rest)"
proof -
  have "get_varint (put_varint (num * 8) @ put_varint n @ rest) =
      Some (num * 8, put_varint n @ rest)"
    by (rule get_put_varint)
  with assms show ?thesis
    by (simp add: get_field_def get_put_varint del: mult_Suc_right)
qed

lemma get_put_field_LengthDelimited:
  assumes "0 < num"
  shows "get_field (put_field (num, LengthDelimited bs) @ rest) =
           Some ((num, LengthDelimited bs), rest)"
proof -
  have "get_varint (put_varint (num * 8 + 2) @ put_varint (length bs) @ bs @ rest) =
      Some (num * 8 + 2, put_varint (length bs) @ bs @ rest)"
    by (rule get_put_varint)
  moreover have "(num * 8 + 2) div 8 = num" "(num * 8 + 2) mod 8 = 2"
    by presburger+
  ultimately have "get_field (put_varint (num * 8 + 2) @ put_varint (length bs) @ bs @ rest) =
      Some ((num, LengthDelimited bs), rest)"
    using assms by (simp add: get_field_def get_put_varint Let_def del: add_2_eq_Suc add_2_eq_Suc')
  then show ?thesis by (simp del: add_2_eq_Suc add_2_eq_Suc')
qed

lemma put_field_nonempty: "put_field f \<noteq> []"
  by (cases f rule: put_field.cases) (simp_all add: put_varint_nonempty)

lemma get_fields_put:
  "\<forall>f \<in> set fs. 0 < fst f \<and> ((\<exists>n. snd f = Varint n) \<or> (\<exists>bs. snd f = LengthDelimited bs)) \<Longrightarrow>
     get_fields (concat (map put_field fs)) = Some fs"
proof (induction fs)
  case Nil
  then show ?case by (simp add: get_fields.simps)
next
  case (Cons f fs)
  obtain num w where f: "f = (num, w)" by (cases f)
  from Cons.prems f have num: "0 < num"
    and w: "(\<exists>n. w = Varint n) \<or> (\<exists>bs. w = LengthDelimited bs)" by auto
  from num w have "get_field (put_field f @ concat (map put_field fs)) =
      Some (f, concat (map put_field fs))"
    unfolding f by (auto simp: get_put_field_Varint get_put_field_LengthDelimited
        simp del: put_field.simps)
  moreover from Cons have "get_fields (concat (map put_field fs)) = Some fs" by simp
  ultimately show ?case
    by (simp add: get_fields.simps [of "put_field f @ concat (map put_field fs)"]
        put_field_nonempty length_greater_0_conv [symmetric] del: length_greater_0_conv)
qed

lemma to_string_to_bytes: "to_string (to_bytes s) = s"
  by (simp add: to_string_def to_bytes_def unat_of_nat comp_def)


lemma fields_ok:
  "\<forall>f \<in> set (string_field (Suc k) v).
      0 < fst f \<and> ((\<exists>n. snd f = Varint n) \<or> (\<exists>bs. snd f = LengthDelimited bs))"
  "\<forall>f \<in> set (bytes_field (Suc k) b).
      0 < fst f \<and> ((\<exists>n. snd f = Varint n) \<or> (\<exists>bs. snd f = LengthDelimited bs))"
  "\<forall>f \<in> set (int64_field (Suc k) i).
      0 < fst f \<and> ((\<exists>n. snd f = Varint n) \<or> (\<exists>bs. snd f = LengthDelimited bs))"
  "\<forall>f \<in> set (bool_field (Suc k) t).
      0 < fst f \<and> ((\<exists>n. snd f = Varint n) \<or> (\<exists>bs. snd f = LengthDelimited bs))"
  by (simp_all add: string_field_def bytes_field_def int64_field_def bool_field_def)

lemma Stream_fields_ok:
  "\<forall>f \<in> set (Stream_fields s).
      0 < fst f \<and> ((\<exists>n. snd f = Varint n) \<or> (\<exists>bs. snd f = LengthDelimited bs))"
  unfolding Stream_fields_def set_append ball_Un
  using fields_ok [of 0] fields_ok [of 1] fields_ok [of 2] fields_ok [of 3]
    fields_ok [of 4] fields_ok [of 5] fields_ok [of 6] fields_ok [of 7]
  by (simp add: numeral_eq_Suc)

lemma Stream_set_string:
  "Id' m = [] \<Longrightarrow> foldl Stream_set m (string_field 1 v) = m\<lparr>Id' := v\<rparr>"
  "Application m = [] \<Longrightarrow> foldl Stream_set m (string_field 2 v) = m\<lparr>Application := v\<rparr>"
  "Name m = [] \<Longrightarrow> foldl Stream_set m (string_field 3 v) = m\<lparr>Name := v\<rparr>"
  "AuthKey m = [] \<Longrightarrow> foldl Stream_set m (string_field 4 v) = m\<lparr>AuthKey := v\<rparr>"
  "Notes m = [] \<Longrightarrow> foldl Stream_set m (string_field 6 v) = m\<lparr>Notes := v\<rparr>"
  by (auto simp: string_field_def to_string_to_bytes)

lemma Stream_set_int64:
  "AuthExpire m = 0 \<Longrightarrow> foldl Stream_set m (int64_field 5 v) = m\<lparr>AuthExpire := v\<rparr>"
  by (auto simp: int64_field_def)

lemma Stream_set_bool:
  "\<not> Blocked m \<Longrightarrow> foldl Stream_set m (bool_field 7 v) = m\<lparr>Blocked := v\<rparr>"
  "\<not> Active m \<Longrightarrow> foldl Stream_set m (bool_field 8 v) = m\<lparr>Active := v\<rparr>"
  by (auto simp: bool_field_def)

lemma Stream_set_fields: "foldl Stream_set Stream_zero (Stream_fields s) = s"
  by (simp add: Stream_fields_def Stream_set_string Stream_set_int64 Stream_set_bool
      Stream_zero_def del: One_nat_def)

lemma Unmarshal_Marshal_Stream: "Unmarshal_Stream (Marshal_Stream s) = Some s"
  by (simp add: Unmarshal_Stream_def Marshal_Stream_def get_fields_put Stream_fields_ok
      Stream_set_fields)


lemma State_sets_append:
  "State_sets s (fs @ gs) =
     (case State_sets s fs of None \<Rightarrow> None | Some s1 \<Rightarrow> State_sets s1 gs)"
  by (induction fs arbitrary: s) (auto split: option.splits)

lemma State_sets_Streams:
  "State_sets m (map (\<lambda>stream. (3, LengthDelimited (Marshal_Stream stream))) ss) =
     Some (m\<lparr>Streams := Streams m @ ss\<rparr>)"
  by (induction ss arbitrary: m) (simp_all add: Unmarshal_Marshal_Stream)

lemma State_sets_Secret:
  "Secret m = [] \<Longrightarrow> State_sets m (bytes_field 1 v) = Some (m\<lparr>Secret := v\<rparr>)"
  by (auto simp: bytes_field_def)

lemma State_sets_CtrlUrl:
  "CtrlUrl m = [] \<Longrightarrow> State_sets m (string_field 2 v) = Some (m\<lparr>CtrlUrl := v\<rparr>)"
  by (auto simp: string_field_def to_string_to_bytes)

lemma State_sets_fields: "State_sets State_zero (State_fields s) = Some s"
  by (simp add: State_fields_def State_sets_append State_sets_Streams State_sets_Secret
      State_sets_CtrlUrl State_zero_def del: One_nat_def)

lemma State_fields_ok:
  "\<forall>f \<in> set (State_fields s).
      0 < fst f \<and> ((\<exists>n. snd f = Varint n) \<or> (\<exists>bs. snd f = LengthDelimited bs))"
  unfolding State_fields_def set_append ball_Un
  using fields_ok [of 0] fields_ok [of 1]
  by (auto simp: numeral_eq_Suc)

lemma Unmarshal_Marshal_State:
  "Marshal_State s = Some bs \<Longrightarrow> Unmarshal_State bs = Some s"
  by (auto simp: Marshal_State_def Unmarshal_State_def get_fields_put State_fields_ok
      State_sets_fields)

text \<open>
  Claim C8. With the serializer and parser of the persisted file, a \<^verbatim>\<open>save\<close> that
  succeeds followed by \<^verbatim>\<open>read\<close> of the file it wrote, into any store, gives that store
  the state that was saved: the secret, the control URL (the empty one too) and every
  field of every stream in order (the expiry \<open>-1\<close> too).
\<close>

theorem save_read_roundtrip:
  assumes "Marshal env = Marshal_State" and "Unmarshal env = Unmarshal_State"
    and "fst (save env store) = None"
    and "Disk fresh = Disk (snd (save env store))"
    and "ReadFile_ok env"
  shows "read env fresh = Inr (fresh\<lparr>State := State store, Log := Log fresh @ [LogStateRestored]\<rparr>)"
proof -
  from assms(1,3) obtain out where out: "Marshal_State (State store) = Some out"
    and disk: "Disk (snd (save env store)) = Some out"
    by (auto simp: save_def Let_def split: option.splits if_splits)
  from out have "Unmarshal_State out = Some (State store)"
    by (rule Unmarshal_Marshal_State)
  with assms(2,4,5) disk show ?thesis by (simp add: read_def)
qed

theorem save_read_roundtrip_witness:
  "fst (save proto_env unconfigured_store) = None \<and>
   read proto_env (snd (save proto_env unconfigured_store)) =
     Inr ((snd (save proto_env unconfigured_store))
           \<lparr>State := State unconfigured_store,
            Log := Log (snd (save proto_env unconfigured_store)) @ [LogStateRestored]\<rparr>) \<and>
   CtrlUrl (State unconfigured_store) = '''' \<and>
   AuthExpire (hd (Streams (State unconfigured_store))) = - 1"
proof -
  have 1: "Marshal proto_env = Marshal_State" "Unmarshal proto_env = Unmarshal_State"
    "ReadFile_ok proto_env"
    by (simp_all add: proto_env_def example_env_def)
  have 2: "fst (save proto_env unconfigured_store) = None"
    by (simp add: save_def proto_env_def example_env_def Marshal_State_def)
  have 3: "CtrlUrl (State unconfigured_store) = ''''"
    "AuthExpire (hd (Streams (State unconfigured_store))) = - 1"
    by (simp_all add: unconfigured_store_def contended_store_def with_Streams_def
        example_store_def stream_k1_def)
  from save_read_roundtrip [OF 1(1) 1(2) 2 refl 1(3)] 2 3 show ?thesis by simp
qed

subsection \<open>Parsing an expiry\<close>

text \<open>
  The pattern finds a match exactly in the strings that hold the letter P.
\<close>

lemma durationRegex_no_match:
  "durationRegex_FindStringSubmatch str = None \<longleftrightarrow> CHR ''P'' \<notin> set str"
  unfolding durationRegex_FindStringSubmatch_def by (induction str) auto






end
